theory Spec2Isabelle
  imports
    Main
    "HOL-Library.Sublist"
    "HOL-Library.Multiset"
    "HOL-Library.Char_ord"
    "HOL-Library.List_Lexorder"
begin

section \<open>The dependencies page: \<open>app/pages/deps/[...path].vue\<close>\<close>

text \<open>
  The page derives everything it shows from the route parameter \<open>path\<close> (the list of
  path segments after \<open>/dependencies/\<close>) and from the result of one fetch. The script part
  is a handful of pure computed values; each becomes a HOL function of the values it reads.

  Strings are \<open>char list\<close>. The only characters the code inspects are \<open>/\<close>, \<open>@\<close> and the
  token \<open>v\<close>, all ASCII, so the difference between UTF-16 code units and bytes plays no role.
  A value of type \<open>string | null\<close> is a \<open>string option\<close>, \<open>None\<close> being \<open>null\<close>.
\<close>

subsection \<open>Array and string built-ins used by the script\<close>

text \<open>\<open>Array.prototype.indexOf\<close>: the first index holding the element, \<open>-1\<close> when absent.\<close>

fun indexOf_from :: "'a list \<Rightarrow> 'a \<Rightarrow> int \<Rightarrow> int" where
  "indexOf_from [] x k = - 1"
| "indexOf_from (y # ys) x k = (if y = x then k else indexOf_from ys x (k + 1))"

definition indexOf :: "'a list \<Rightarrow> 'a \<Rightarrow> int" where
  "indexOf xs x = indexOf_from xs x 0"

text \<open>
  \<open>Array.prototype.slice(start, end)\<close>: a negative bound counts from the end, and both
  bounds are clamped to the array (\<open>stop\<close> is the source's \<open>end\<close>). \<open>slice_from\<close> is the
  call with the second argument omitted.
\<close>

definition slice_bound :: "int \<Rightarrow> int \<Rightarrow> int" where
  "slice_bound n k = (if k < 0 then max (n + k) 0 else min k n)"

definition slice :: "'a list \<Rightarrow> int \<Rightarrow> int \<Rightarrow> 'a list" where
  "slice xs start stop =
     (let n = int (length xs); from = slice_bound n start; to = slice_bound n stop
      in take (nat (to - from)) (drop (nat from) xs))"

definition slice_from :: "'a list \<Rightarrow> int \<Rightarrow> 'a list" where
  "slice_from xs start = slice xs start (int (length xs))"

text \<open>\<open>Array.prototype.join(sep)\<close> on an array of strings.\<close>

fun join :: "string list \<Rightarrow> string \<Rightarrow> string" where
  "join [] sep = []"
| "join [x] sep = x"
| "join (x # y # ys) sep = x @ sep @ join (y # ys) sep"

text \<open>
  \<open>String.prototype.split(sep)\<close> for a separator of one character: the pieces between the
  occurrences of the separator; the empty string gives one empty piece.
\<close>

fun split_chr :: "string \<Rightarrow> char \<Rightarrow> string list" where
  "split_chr [] sep = [[]]"
| "split_chr (c # cs) sep =
     (if c = sep then [] # split_chr cs sep
      else (case split_chr cs sep of
              [] \<Rightarrow> [[c]]
            | p # ps \<Rightarrow> (c # p) # ps))"

text \<open>\<open>xs[0] ?? null\<close>: the first element, \<open>null\<close> when the array has none.\<close>

definition first_or_null :: "'a list \<Rightarrow> 'a option" where
  "first_or_null xs = (case xs of [] \<Rightarrow> None | x # _ \<Rightarrow> Some x)"

text \<open>
  Truthiness of a \<open>string\<close> and of a \<open>string | null | undefined\<close>: \<open>null\<close>, \<open>undefined\<close> and
  the empty string are falsy, every other string is truthy.
\<close>

definition truthy_str :: "string \<Rightarrow> bool" where
  "truthy_str s = (s \<noteq> [])"

definition truthy :: "string option \<Rightarrow> bool" where
  "truthy v = (case v of None \<Rightarrow> False | Some s \<Rightarrow> truthy_str s)"

text \<open>Interpolation \<open>${v}\<close> of a \<open>string | null\<close> in a template literal.\<close>

definition interpolate :: "string option \<Rightarrow> string" where
  "interpolate v = (case v of None \<Rightarrow> ''null'' | Some s \<Rightarrow> s)"

subsection \<open>Route parsing\<close>

record ParsedRoute =
  packageName :: string
  version :: "string option"

text \<open>\<open>route.params.path || []\<close>: an absent parameter is the empty list of segments.\<close>

definition routeSegments :: "string list option \<Rightarrow> string list" where
  "routeSegments path = (case path of None \<Rightarrow> [] | Some segments \<Rightarrow> segments)"

text \<open>The computed \<open>parsedRoute\<close>, as a function of \<open>segments\<close>.\<close>

definition parsedRoute :: "string list \<Rightarrow> ParsedRoute" where
  "parsedRoute segments =
     (let vIndex = indexOf segments ''v''
      in if vIndex = - 1 \<or> vIndex \<ge> int (length segments) - 1
         then \<lparr>packageName = join segments ''/'', version = None\<rparr>
         else
           (let name = join (slice segments 0 vIndex) ''/'';
                afterVersion = slice_from segments (vIndex + 1)
            in \<lparr>packageName = name, version = first_or_null afterVersion\<rparr>))"

text \<open>The computed values \<open>packageName\<close> and \<open>version\<close> are the two fields of \<open>parsedRoute\<close>.\<close>

subsection \<open>Organisation of a scoped package\<close>

definition startsWith :: "string \<Rightarrow> string \<Rightarrow> bool" where
  "startsWith s p = (take (length p) s = p)"

text \<open>
  The first capture group of \<open>name.match(/^@([^/]+)\//)\<close>, \<open>None\<close> when the expression does
  not match. The match is anchored at the start; the group \<open>[^/]+\<close> is greedy and takes the
  whole run of characters other than \<open>/\<close> after the \<open>@\<close>, which must be non-empty and must be
  followed by a \<open>/\<close>. Giving back characters of the run cannot help: the character after a
  shorter run is not a \<open>/\<close>.
\<close>

definition match_scope :: "string \<Rightarrow> string option" where
  "match_scope s =
     (case s of
        [] \<Rightarrow> None
      | c # cs \<Rightarrow>
          if c \<noteq> CHR ''@'' then None
          else
            (let run = takeWhile (\<lambda>d. d \<noteq> CHR ''/'') cs;
                 rest = dropWhile (\<lambda>d. d \<noteq> CHR ''/'') cs
             in if run = [] then None
                else (case rest of [] \<Rightarrow> None | _ # _ \<Rightarrow> Some run)))"

text \<open>The computed \<open>orgName\<close>, as a function of \<open>packageName.value\<close>.\<close>

definition orgName :: "string \<Rightarrow> string option" where
  "orgName pkg = (if \<not> startsWith pkg ''@'' then None else match_scope pkg)"

subsection \<open>Link to the package page\<close>

record RouteLocation =
  route_name :: string
  params_package :: "string list"

text \<open>
  \<open>packageRoute(ver)\<close>, as a function of \<open>packageName.value\<close> and the optional argument
  (\<open>None\<close> for \<open>null\<close>, \<open>undefined\<close> or no argument). \<open>if (ver)\<close> holds for a non-empty string
  only, and then \<open>'v'\<close> and the string are pushed.
\<close>

definition packageRoute :: "string \<Rightarrow> string option \<Rightarrow> RouteLocation" where
  "packageRoute pkg ver =
     (let segments = split_chr pkg CHR ''/'';
          segments' = (case ver of
                         None \<Rightarrow> segments
                       | Some s \<Rightarrow> if truthy_str s then segments @ [''v'', s] else segments)
      in \<lparr>route_name = ''package'', params_package = segments'\<rparr>)"

subsection \<open>The fetched payload and the two lists derived from it\<close>

text \<open>
  Modelled from the spec: the type \<open>PackageDependenciesResponse\<close> is imported from
  \<open>#shared/types\<close>, which is not among the sources of the page. The spec gives a dependency
  record the fields name, version, depth (a string tag, \<open>"direct"\<close> or another) and optional,
  and the response a number \<open>direct\<close>, the sequence \<open>dependencies\<close> and the mapping
  \<open>devDependencies\<close>. The fields carry a prefix where the name is taken by a computed value
  of the page. The mapping is the list of its entries in the order \<open>Object.entries\<close>
  enumerates them, \<open>None\<close> when the field is missing.
\<close>

record DependencyRecord =
  dep_name :: string
  dep_version :: string
  depth :: string
  optional :: bool

record PackageDependenciesResponse =
  direct :: nat
  dependencies :: "DependencyRecord list"
  dev_dependencies :: "(string \<times> string) list option"

text \<open>
  The computed \<open>directDependencies\<close>; the argument is \<open>dependencies.value\<close>, \<open>None\<close> while
  there is no payload.
\<close>

definition directDependencies :: "PackageDependenciesResponse option \<Rightarrow> DependencyRecord list" where
  "directDependencies deps =
     (case deps of
        None \<Rightarrow> []
      | Some r \<Rightarrow> filter (\<lambda>dep. depth dep = ''direct'') (dependencies r))"

text \<open>
  \<open>Array.prototype.sort(comparefn)\<close>. The sort is stable, and for a consistent comparator
  its result is determined: the elements in ascending order, equal ones in their original
  order. The model computes that list by insertion from the right; \<open>comparefn\<close> returns a
  negative number, zero or a positive number.
\<close>

fun sort_insert :: "('a \<Rightarrow> 'a \<Rightarrow> int) \<Rightarrow> 'a \<Rightarrow> 'a list \<Rightarrow> 'a list" where
  "sort_insert comparefn x [] = [x]"
| "sort_insert comparefn x (y # ys) =
     (if comparefn x y \<le> 0 then x # y # ys else y # sort_insert comparefn x ys)"

definition array_sort :: "('a \<Rightarrow> 'a \<Rightarrow> int) \<Rightarrow> 'a list \<Rightarrow> 'a list" where
  "array_sort comparefn xs = foldr (sort_insert comparefn) xs []"

text \<open>
  What the language requires of a comparator for the sort to be determined: the sign of
  \<open>comparefn a b\<close> is opposite to that of \<open>comparefn b a\<close>, and \<open>\<le> 0\<close> is transitive.
\<close>

definition consistent_comparator :: "('a \<Rightarrow> 'a \<Rightarrow> int) \<Rightarrow> bool" where
  "consistent_comparator comparefn \<longleftrightarrow>
     (\<forall>a b. (comparefn a b < 0) = (0 < comparefn b a)) \<and>
     (\<forall>a b c. comparefn a b \<le> 0 \<longrightarrow> comparefn b c \<le> 0 \<longrightarrow> comparefn a c \<le> 0)"

text \<open>
  The computed \<open>devDependencies\<close>. \<open>String.prototype.localeCompare\<close> depends on the locale
  of the runtime and is a parameter. The comparator handed to \<open>sort\<close> destructures the two
  entries and compares their names.
\<close>

definition devDependencies ::
  "(string \<Rightarrow> string \<Rightarrow> int) \<Rightarrow> PackageDependenciesResponse option \<Rightarrow> (string \<times> string) list" where
  "devDependencies localeCompare deps =
     (case deps of
        None \<Rightarrow> []
      | Some r \<Rightarrow>
          (case dev_dependencies r of
             None \<Rightarrow> []
           | Some entries \<Rightarrow> array_sort (\<lambda>p q. localeCompare (fst p) (fst q)) entries))"

text \<open>
  A comparator by code units, \<open>-1\<close>, \<open>0\<close> or \<open>1\<close>: one consistent comparator, used to run
  \<open>devDependencies\<close> on an example.
\<close>

definition compare_code_units :: "string \<Rightarrow> string \<Rightarrow> int" where
  "compare_code_units a b = (if a < b then - 1 else if a = b then 0 else 1)"

subsection \<open>Title, description and canonical link\<close>

definition pageTitle :: "string \<Rightarrow> string option \<Rightarrow> string" where
  "pageTitle pkg ver =
     (if truthy_str pkg \<and> truthy ver
      then ''Dependencies - '' @ pkg @ ''@'' @ interpolate ver @ '' - npmx''
      else ''Dependencies - npmx'')"

definition pageDescription :: "string \<Rightarrow> string option \<Rightarrow> string" where
  "pageDescription pkg ver =
     (if truthy_str pkg \<and> truthy ver
      then ''Browse dependency tree for '' @ pkg @ ''@'' @ interpolate ver
      else ''Browse package dependencies'')"

definition canonicalUrl :: "string \<Rightarrow> string option \<Rightarrow> string" where
  "canonicalUrl pkg ver =
     (if truthy_str pkg \<and> truthy ver
      then ''https://npmx.dev/dependencies/'' @ pkg @ ''/v/'' @ interpolate ver
      else ''https://npmx.dev/dependencies'')"

subsection \<open>The template's chain of states\<close>

datatype RenderState = NoVersion | Loading | FetchError | Content

text \<open>
  A chain \<open>v-if\<close> / \<open>v-else-if\<close> with no \<open>v-else\<close> renders the block of the first condition
  that holds, and nothing when none holds.
\<close>

fun v_if_chain :: "('a \<times> bool) list \<Rightarrow> 'a option" where
  "v_if_chain [] = None"
| "v_if_chain ((block, cond) # rest) = (if cond then Some block else v_if_chain rest)"

text \<open>
  The chain below the header: \<open>!version\<close>, \<open>dependenciesStatus === 'pending'\<close>,
  \<open>dependenciesStatus === 'error'\<close>, \<open>dependencies\<close>. The status is the string the fetch
  layer reports; the payload is an object, truthy whenever present.
\<close>

definition renderedState :: "string option \<Rightarrow> string \<Rightarrow> 'p option \<Rightarrow> RenderState option" where
  "renderedState ver dependenciesStatus deps =
     v_if_chain
       [(NoVersion, \<not> truthy ver),
        (Loading, dependenciesStatus = ''pending''),
        (FetchError, dependenciesStatus = ''error''),
        (Content, deps \<noteq> None)]"

subsection \<open>The options of the dependency fetch\<close>

record FetchCall =
  url :: string
  immediate :: bool

text \<open>
  What the script hands to \<open>useFetch\<close>: the request URL built from the package name and the
  version, and the option \<open>immediate: !!version.value\<close>. When and how often the fetch layer
  issues the request is not part of the page.
\<close>

definition dependenciesFetch :: "ParsedRoute \<Rightarrow> FetchCall" where
  "dependenciesFetch r =
     \<lparr>url = ''/api/registry/dependencies/'' @ packageName r @ ''/v/'' @ interpolate (version r),
      immediate = truthy (version r)\<rparr>"

section \<open>Properties\<close>

subsection \<open>Facts about the built-ins and the parser\<close>

lemma indexOf_from_absent: "x \<notin> set xs \<Longrightarrow> indexOf_from xs x k = - 1"
  by (induction xs arbitrary: k) auto

lemma indexOf_from_first:
  "x \<notin> set pre \<Longrightarrow> indexOf_from (pre @ x # rest) x k = k + int (length pre)"
  by (induction pre arbitrary: k) auto

lemma indexOf_absent: "x \<notin> set xs \<Longrightarrow> indexOf xs x = - 1"
  by (simp add: indexOf_def indexOf_from_absent)

lemma indexOf_first: "x \<notin> set pre \<Longrightarrow> indexOf (pre @ x # rest) x = int (length pre)"
  by (simp add: indexOf_def indexOf_from_first)

lemma slice_prefix: "slice (pre @ rest) 0 (int (length pre)) = pre"
  by (simp add: slice_def slice_bound_def Let_def)

lemma slice_from_suffix: "slice_from (pre @ x # rest) (int (length pre) + 1) = rest"
  by (simp add: slice_from_def slice_def slice_bound_def Let_def nat_add_distrib)

lemma parsedRoute_no_v:
  "''v'' \<notin> set segments \<Longrightarrow>
   parsedRoute segments = \<lparr>packageName = join segments ''/'', version = None\<rparr>"
  by (simp add: parsedRoute_def indexOf_absent)

lemma parsedRoute_absent_path:
  "parsedRoute (routeSegments None) = \<lparr>packageName = [], version = None\<rparr>"
  by (simp add: routeSegments_def parsedRoute_def indexOf_def)

lemma parsedRoute_v_last:
  "''v'' \<notin> set pre \<Longrightarrow>
   parsedRoute (pre @ [''v'']) = \<lparr>packageName = join (pre @ [''v'']) ''/'', version = None\<rparr>"
  by (simp add: parsedRoute_def indexOf_first)

lemma parsedRoute_v_inner:
  "''v'' \<notin> set pre \<Longrightarrow>
   parsedRoute (pre @ ''v'' # ver # rest) = \<lparr>packageName = join pre ''/'', version = Some ver\<rparr>"
  by (simp add: parsedRoute_def indexOf_first slice_prefix slice_from_suffix first_or_null_def)

subsection \<open>The route parser against its reference description\<close>

text \<open>
  C1. For every list of path segments: when the token \<open>v\<close> does not occur, or its first
  occurrence is the last element, the parsed result has all segments joined by \<open>/\<close> as the
  package name and \<open>null\<close> as the version. Otherwise, with \<open>pre\<close> the segments strictly
  before the first \<open>v\<close>, the package name is \<open>pre\<close> joined by \<open>/\<close> and the version is the one
  segment right after that \<open>v\<close>; whatever follows (\<open>rest\<close>) is ignored. The two cases cover
  every list. For \<open>["@nuxt","kit","v","1.0.0"]\<close> the result is \<open>@nuxt/kit\<close> at \<open>1.0.0\<close>.
\<close>

theorem parsedRoute_reference:
  "((''v'' \<notin> set segments \<or> (\<exists>pre. segments = pre @ [''v''] \<and> ''v'' \<notin> set pre)) \<longrightarrow>
      parsedRoute segments = \<lparr>packageName = join segments ''/'', version = None\<rparr>) \<and>
   (''v'' \<notin> set pre \<longrightarrow>
      parsedRoute (pre @ ''v'' # ver # rest) =
        \<lparr>packageName = join pre ''/'', version = Some ver\<rparr>) \<and>
   parsedRoute [''@nuxt'', ''kit'', ''v'', ''1.0.0''] =
     \<lparr>packageName = ''@nuxt/kit'', version = Some ''1.0.0''\<rparr>"
proof (intro conjI impI)
  assume "''v'' \<notin> set segments \<or> (\<exists>pre. segments = pre @ [''v''] \<and> ''v'' \<notin> set pre)"
  then show "parsedRoute segments = \<lparr>packageName = join segments ''/'', version = None\<rparr>"
    using parsedRoute_no_v parsedRoute_v_last by blast
next
  assume "''v'' \<notin> set pre"
  then show "parsedRoute (pre @ ''v'' # ver # rest) =
        \<lparr>packageName = join pre ''/'', version = Some ver\<rparr>"
    by (rule parsedRoute_v_inner)
next
  have "parsedRoute ([''@nuxt'', ''kit''] @ ''v'' # ''1.0.0'' # []) =
        \<lparr>packageName = join [''@nuxt'', ''kit''] ''/'', version = Some ''1.0.0''\<rparr>"
    by (rule parsedRoute_v_inner) simp
  then show "parsedRoute [''@nuxt'', ''kit'', ''v'', ''1.0.0''] =
     \<lparr>packageName = ''@nuxt/kit'', version = Some ''1.0.0''\<rparr>"
    by simp
qed

theorem parsedRoute_reference_witness:
  "''v'' \<notin> set [''lodash'', ''fp''] \<and>
   parsedRoute [''lodash'', ''fp''] = \<lparr>packageName = ''lodash/fp'', version = None\<rparr> \<and>
   [''nuxt'', ''v''] = [''nuxt''] @ [''v''] \<and> ''v'' \<notin> set [''nuxt''] \<and>
   parsedRoute [''nuxt'', ''v''] = \<lparr>packageName = ''nuxt/v'', version = None\<rparr> \<and>
   parsedRoute [''nuxt'', ''v'', ''4.2.0'', ''v'', ''x''] =
     \<lparr>packageName = ''nuxt'', version = Some ''4.2.0''\<rparr>"
  using parsedRoute_reference [of "[''lodash'', ''fp'']" "[''nuxt'']" "''4.2.0''" "[''v'', ''x'']"]
    parsedRoute_reference [of "[''nuxt'', ''v'']" "[]" "[]" "[]"]
  by simp

subsection \<open>The invariant of the parsed route\<close>

lemma join_eq_Nil: "join xs sep \<noteq> [] \<Longrightarrow> xs \<noteq> []"
  by auto

lemma first_v_cases:
  "''v'' \<notin> set segments \<or>
   (\<exists>pre. segments = pre @ [''v''] \<and> ''v'' \<notin> set pre) \<or>
   (\<exists>pre ver rest. segments = pre @ ''v'' # ver # rest \<and> ''v'' \<notin> set pre)"
proof (cases "''v'' \<in> set segments")
  case False
  then show ?thesis by simp
next
  case True
  then obtain pre tl where s: "segments = pre @ ''v'' # tl" and n: "''v'' \<notin> set pre"
    by (meson split_list_first)
  show ?thesis
  proof (cases tl)
    case Nil
    with s n show ?thesis by blast
  next
    case (Cons ver rest)
    with s n show ?thesis by blast
  qed
qed

text \<open>
  C6, as amended. The separator is the first \<open>v\<close> of the list, trailing or not. For every
  list of segments: the parsed package name is non-empty only when at least one segment
  precedes the separator, or the list has no \<open>v\<close> and at least one segment, or the list is
  exactly \<open>["v"]\<close>, whose lone \<open>v\<close> is taken as the package name. And the parsed version is
  \<open>null\<close> whenever no \<open>v\<close> occurs or the first \<open>v\<close> is the final segment.
\<close>

theorem parsedRoute_invariant:
  "(packageName (parsedRoute segments) \<noteq> [] \<longrightarrow>
      (\<exists>pre after. segments = pre @ ''v'' # after \<and> ''v'' \<notin> set pre \<and> pre \<noteq> []) \<or>
      (''v'' \<notin> set segments \<and> segments \<noteq> []) \<or>
      segments = [''v'']) \<and>
   ((''v'' \<notin> set segments \<or> (\<exists>pre. segments = pre @ [''v''] \<and> ''v'' \<notin> set pre)) \<longrightarrow>
      version (parsedRoute segments) = None)"
proof (intro conjI impI)
  assume ne: "packageName (parsedRoute segments) \<noteq> []"
  consider (absent) "''v'' \<notin> set segments"
    | (last) pre where "segments = pre @ [''v'']" "''v'' \<notin> set pre"
    | (inner) pre ver rest where "segments = pre @ ''v'' # ver # rest" "''v'' \<notin> set pre"
    using first_v_cases [of segments] by blast
  then show "(\<exists>pre after. segments = pre @ ''v'' # after \<and> ''v'' \<notin> set pre \<and> pre \<noteq> []) \<or>
      (''v'' \<notin> set segments \<and> segments \<noteq> []) \<or>
      segments = [''v'']"
  proof cases
    case absent
    with ne have "segments \<noteq> []" by (auto simp: parsedRoute_no_v)
    with absent show ?thesis by simp
  next
    case last
    show ?thesis
    proof (cases "pre = []")
      case True
      with last show ?thesis by simp
    next
      case False
      with last have "\<exists>p after. segments = p @ ''v'' # after \<and> ''v'' \<notin> set p \<and> p \<noteq> []"
        by (intro exI [of _ pre] exI [of _ "[]"]) simp
      then show ?thesis by (rule disjI1)
    qed
  next
    case inner
    with ne have "join pre ''/'' \<noteq> []" by (simp add: parsedRoute_v_inner)
    then have "pre \<noteq> []" by (rule join_eq_Nil)
    with inner have "\<exists>p after. segments = p @ ''v'' # after \<and> ''v'' \<notin> set p \<and> p \<noteq> []"
      by (intro exI [of _ pre] exI [of _ "ver # rest"]) simp
    then show ?thesis by (rule disjI1)
  qed
next
  assume "''v'' \<notin> set segments \<or> (\<exists>pre. segments = pre @ [''v''] \<and> ''v'' \<notin> set pre)"
  then show "version (parsedRoute segments) = None"
    by (auto simp: parsedRoute_no_v parsedRoute_v_last)
qed

theorem parsedRoute_invariant_witness:
  "packageName (parsedRoute [''@nuxt'', ''kit'', ''v'', ''1.0.0'']) \<noteq> [] \<and>
   (\<exists>pre after. [''@nuxt'', ''kit'', ''v'', ''1.0.0''] = pre @ ''v'' # after \<and>
      ''v'' \<notin> set pre \<and> pre \<noteq> []) \<and>
   ''v'' \<notin> set [''nuxt''] \<and> version (parsedRoute [''nuxt'']) = None"
proof -
  have a: "packageName (parsedRoute [''@nuxt'', ''kit'', ''v'', ''1.0.0'']) \<noteq> []"
    using parsedRoute_v_inner [of "[''@nuxt'', ''kit'']" "''1.0.0''" "[]"] by simp
  have b: "''v'' \<notin> set [''nuxt'']" by simp
  have c: "\<not> (''v'' \<notin> set [''@nuxt'', ''kit'', ''v'', ''1.0.0''] \<and>
      [''@nuxt'', ''kit'', ''v'', ''1.0.0''] \<noteq> [])" by simp
  have d: "[''@nuxt'', ''kit'', ''v'', ''1.0.0''] \<noteq> [''v'']" by simp
  from parsedRoute_invariant [of "[''@nuxt'', ''kit'', ''v'', ''1.0.0'']"] a c d
  have e: "\<exists>pre after. [''@nuxt'', ''kit'', ''v'', ''1.0.0''] = pre @ ''v'' # after \<and>
      ''v'' \<notin> set pre \<and> pre \<noteq> []" by blast
  from parsedRoute_invariant [of "[''nuxt'']"] b
  have f: "version (parsedRoute [''nuxt'']) = None" by blast
  from a e b f show ?thesis by blast
qed

text \<open>
  The claim C6 as first stated, with the first \<open>v\<close> as the separator, fails for the list
  \<open>["v"]\<close>: the first \<open>v\<close> is at index 0 and is the last element, so the whole list is
  joined and the package name is \<open>v\<close>, which is not empty; yet no segment precedes that \<open>v\<close>,
  and the list is not one without a \<open>v\<close>.
\<close>

theorem parsedRoute_lone_v_counterexample:
  "parsedRoute [''v''] = \<lparr>packageName = ''v'', version = None\<rparr> \<and>
   packageName (parsedRoute [''v'']) \<noteq> [] \<and>
   indexOf [''v''] ''v'' = 0 \<and>
   slice [''v''] 0 (indexOf [''v''] ''v'') = [] \<and>
   ''v'' \<in> set [''v''] \<and>
   \<not> ((\<exists>pre after. [''v''] = pre @ ''v'' # after \<and> ''v'' \<notin> set pre \<and> pre \<noteq> []) \<or>
      (''v'' \<notin> set [''v''] \<and> [''v''] \<noteq> []))"
proof -
  have p: "parsedRoute [''v''] = \<lparr>packageName = ''v'', version = None\<rparr>"
    using parsedRoute_v_last [of "[]"] by simp
  have i: "indexOf [''v''] ''v'' = 0" by (simp add: indexOf_def)
  have s: "slice [''v''] 0 (indexOf [''v''] ''v'') = []"
    by (simp add: i slice_def slice_bound_def)
  have n: "\<not> (\<exists>pre after. [''v''] = pre @ ''v'' # after \<and> ''v'' \<notin> set pre \<and> pre \<noteq> [])"
    by (auto simp: Cons_eq_append_conv)
  from p i s n show ?thesis by simp
qed

subsection \<open>Organisation extraction\<close>

lemma takeWhile_run: "c \<notin> set g \<Longrightarrow> takeWhile (\<lambda>d. d \<noteq> c) (g @ c # rest) = g"
  by (induction g) auto

lemma dropWhile_run: "c \<notin> set g \<Longrightarrow> dropWhile (\<lambda>d. d \<noteq> c) (g @ c # rest) = c # rest"
  by (induction g) auto

lemma match_scope_Some:
  "g \<noteq> [] \<Longrightarrow> CHR ''/'' \<notin> set g \<Longrightarrow> match_scope (CHR ''@'' # g @ CHR ''/'' # rest) = Some g"
  by (simp add: match_scope_def takeWhile_run dropWhile_run)

lemma match_scope_SomeD:
  assumes "match_scope s = Some g"
  shows "\<exists>rest. s = CHR ''@'' # g @ CHR ''/'' # rest \<and> g \<noteq> [] \<and> CHR ''/'' \<notin> set g"
proof -
  from assms obtain cs where s: "s = CHR ''@'' # cs"
    by (cases s) (simp_all add: match_scope_def split: if_splits)
  let ?run = "takeWhile (\<lambda>d. d \<noteq> CHR ''/'') cs"
  let ?rest = "dropWhile (\<lambda>d. d \<noteq> CHR ''/'') cs"
  have run_ne: "?run \<noteq> []"
    using assms s by (auto simp: match_scope_def Let_def)
  obtain r rs where rest: "?rest = r # rs"
    using assms s run_ne by (cases ?rest) (simp_all add: match_scope_def Let_def)
  have g: "g = ?run"
    using assms s run_ne rest by (simp add: match_scope_def Let_def)
  have r: "r = CHR ''/''"
    using hd_dropWhile [of "\<lambda>d. d \<noteq> CHR ''/''" cs] rest by simp
  have "cs = ?run @ ?rest" by simp
  with r g rest have cs: "cs = g @ CHR ''/'' # rs" by simp
  have no_slash: "CHR ''/'' \<notin> set g"
    unfolding g by (auto dest: set_takeWhileD)
  have g_ne: "g \<noteq> []" using run_ne g by simp
  from s cs g_ne no_slash show ?thesis by (intro exI [of _ rs]) simp
qed

lemma startsWith_at: "startsWith s ''@'' \<longleftrightarrow> (\<exists>cs. s = CHR ''@'' # cs)"
  by (cases s) (auto simp: startsWith_def)

lemma orgName_Some_iff:
  "orgName pkg = Some g \<longleftrightarrow>
   (\<exists>rest. pkg = CHR ''@'' # g @ CHR ''/'' # rest \<and> g \<noteq> [] \<and> CHR ''/'' \<notin> set g)"
proof
  assume "orgName pkg = Some g"
  then have "match_scope pkg = Some g" by (simp add: orgName_def split: if_splits)
  then show "\<exists>rest. pkg = CHR ''@'' # g @ CHR ''/'' # rest \<and> g \<noteq> [] \<and> CHR ''/'' \<notin> set g"
    by (rule match_scope_SomeD)
next
  assume "\<exists>rest. pkg = CHR ''@'' # g @ CHR ''/'' # rest \<and> g \<noteq> [] \<and> CHR ''/'' \<notin> set g"
  then show "orgName pkg = Some g"
    by (auto simp: orgName_def startsWith_at match_scope_Some)
qed

lemma orgName_no_at: "\<not> startsWith pkg ''@'' \<Longrightarrow> orgName pkg = None"
  by (simp add: orgName_def)

lemma orgName_no_slash: "CHR ''/'' \<notin> set cs \<Longrightarrow> orgName (CHR ''@'' # cs) = None"
proof (rule ccontr)
  assume ns: "CHR ''/'' \<notin> set cs" and "orgName (CHR ''@'' # cs) \<noteq> None"
  then obtain g where "orgName (CHR ''@'' # cs) = Some g" by auto
  then obtain rest where "CHR ''@'' # cs = CHR ''@'' # g @ CHR ''/'' # rest"
    unfolding orgName_Some_iff by blast
  with ns show False by auto
qed

text \<open>
  C7, as amended. The organisation is \<open>g\<close> exactly when the package name is \<open>@\<close>, then the
  non-empty string \<open>g\<close> free of \<open>/\<close>, then \<open>/\<close>, then anything: \<open>g\<close> is the substring strictly
  between the leading \<open>@\<close> and the first \<open>/\<close> after it, and it must be non-empty. In every
  other case the result is \<open>null\<close>; in particular for a name that does not start with \<open>@\<close>.
  \<open>@foo/bar\<close> gives \<open>foo\<close>, and \<open>foo\<close> gives \<open>null\<close>.
\<close>

theorem orgName_extraction:
  "(orgName pkg = Some g \<longleftrightarrow>
      (\<exists>rest. pkg = CHR ''@'' # g @ CHR ''/'' # rest \<and> g \<noteq> [] \<and> CHR ''/'' \<notin> set g)) \<and>
   (\<not> startsWith pkg ''@'' \<longrightarrow> orgName pkg = None) \<and>
   orgName ''@foo/bar'' = Some ''foo'' \<and> orgName ''foo'' = None"
proof (intro conjI impI)
  show "orgName pkg = Some g \<longleftrightarrow>
      (\<exists>rest. pkg = CHR ''@'' # g @ CHR ''/'' # rest \<and> g \<noteq> [] \<and> CHR ''/'' \<notin> set g)"
    by (rule orgName_Some_iff)
  show "orgName pkg = None" if "\<not> startsWith pkg ''@''" using that by (rule orgName_no_at)
  show "orgName ''@foo/bar'' = Some ''foo''"
    using match_scope_Some [of "''foo''" "''bar''"] by (simp add: orgName_def startsWith_def)
  show "orgName ''foo'' = None" by (simp add: orgName_def startsWith_def)
qed

theorem orgName_extraction_witness:
  "\<not> startsWith ''lodash'' ''@'' \<and> orgName ''lodash'' = None \<and>
   orgName ''@nuxt/kit'' = Some ''nuxt''"
  using orgName_extraction [of "''lodash''" "[]"] orgName_extraction [of "''@nuxt/kit''" "''nuxt''"]
  by (simp add: startsWith_def)

text \<open>
  The claim C7 as first stated, that a name starting with \<open>@\<close> yields the substring between
  the \<open>@\<close> and the following \<open>/\<close>, fails where that substring is empty: \<open>@/bar\<close> starts
  with \<open>@\<close>, the substring between \<open>@\<close> and \<open>/\<close> is the empty string, and the result is
  \<open>null\<close>, not the empty string.
\<close>

theorem orgName_empty_scope_counterexample:
  "startsWith ''@/bar'' ''@'' \<and> ''@/bar'' = ''@'' @ [] @ ''/'' @ ''bar'' \<and>
   orgName ''@/bar'' = None \<and> orgName ''@/bar'' \<noteq> Some []"
  by (simp add: orgName_def startsWith_def match_scope_def)

text \<open>
  C10. For every package name that starts with \<open>@\<close> and contains no \<open>/\<close> (such as \<open>@foo\<close>),
  the organisation is \<open>null\<close>, not the remainder of the name.
\<close>

theorem orgName_without_slash:
  "startsWith pkg ''@'' \<Longrightarrow> CHR ''/'' \<notin> set pkg \<Longrightarrow> orgName pkg = None"
  by (auto simp: startsWith_at orgName_no_slash)

theorem orgName_without_slash_witness:
  "startsWith ''@foo'' ''@'' \<and> CHR ''/'' \<notin> set ''@foo'' \<and> orgName ''@foo'' = None"
proof -
  have a: "startsWith ''@foo'' ''@''" by (simp add: startsWith_def)
  have b: "CHR ''/'' \<notin> set ''@foo''" by simp
  from a b orgName_without_slash [OF a b] show ?thesis by blast
qed

subsection \<open>From the route to the package link and back\<close>

lemma split_chr_no_sep: "sep \<notin> set s \<Longrightarrow> split_chr s sep = [s]"
  by (induction s) auto

lemma split_chr_append_sep:
  "sep \<notin> set s \<Longrightarrow> split_chr (s @ sep # t) sep = s # split_chr t sep"
  by (induction s) auto

lemma split_join:
  "xs \<noteq> [] \<Longrightarrow> \<forall>s\<in>set xs. sep \<notin> set s \<Longrightarrow> split_chr (join xs [sep]) sep = xs"
proof (induction xs "[sep]" rule: join.induct)
  case 1
  then show ?case by simp
next
  case (2 x)
  then show ?case by (simp add: split_chr_no_sep)
next
  case (3 x y ys)
  then show ?case by (simp add: split_chr_append_sep)
qed

lemma packageRoute_versioned:
  "ver \<noteq> [] \<Longrightarrow>
   params_package (packageRoute pkg (Some ver)) = split_chr pkg CHR ''/'' @ [''v'', ver]"
  by (simp add: packageRoute_def truthy_str_def)

lemma packageRoute_unversioned:
  "params_package (packageRoute pkg None) = split_chr pkg CHR ''/''"
  by (simp add: packageRoute_def)

text \<open>
  C9. For every non-empty list \<open>pre\<close> of segments that contain no \<open>/\<close> and none of which is
  \<open>v\<close>, and every non-empty version string \<open>ver\<close>: parsing \<open>pre @ ["v", ver]\<close> and building
  \<open>packageRoute\<close> with the parsed version gives \<open>params.package = pre @ ["v", ver]\<close>; parsing
  \<open>pre\<close> alone gives no version, and \<open>packageRoute\<close> with no version gives
  \<open>params.package = pre\<close>.
\<close>

theorem parse_then_packageRoute:
  assumes "pre \<noteq> []" and "\<forall>s\<in>set pre. CHR ''/'' \<notin> set s" and "''v'' \<notin> set pre"
    and "ver \<noteq> []"
  shows "params_package
           (packageRoute (packageName (parsedRoute (pre @ [''v'', ver])))
              (version (parsedRoute (pre @ [''v'', ver])))) = pre @ [''v'', ver] \<and>
         version (parsedRoute pre) = None \<and>
         params_package (packageRoute (packageName (parsedRoute pre)) None) = pre"
proof -
  have rejoin: "split_chr (join pre ''/'') CHR ''/'' = pre"
    using assms(1,2) by (rule split_join)
  have "parsedRoute (pre @ [''v'', ver]) = \<lparr>packageName = join pre ''/'', version = Some ver\<rparr>"
    using assms(3) parsedRoute_v_inner [of pre ver "[]"] by simp
  then have first: "params_package
           (packageRoute (packageName (parsedRoute (pre @ [''v'', ver])))
              (version (parsedRoute (pre @ [''v'', ver])))) = pre @ [''v'', ver]"
    using assms(4) by (simp add: packageRoute_versioned rejoin)
  have plain: "parsedRoute pre = \<lparr>packageName = join pre ''/'', version = None\<rparr>"
    using assms(3) by (rule parsedRoute_no_v)
  then have "params_package (packageRoute (packageName (parsedRoute pre)) None) = pre"
    by (simp add: packageRoute_unversioned rejoin)
  with first plain show ?thesis by simp
qed

theorem parse_then_packageRoute_witness:
  "[''@nuxt'', ''kit''] \<noteq> [] \<and> CHR ''/'' \<notin> set ''@nuxt'' \<and> CHR ''/'' \<notin> set ''kit'' \<and>
   ''v'' \<notin> set [''@nuxt'', ''kit''] \<and> ''1.0.0'' \<noteq> [] \<and>
   params_package
     (packageRoute (packageName (parsedRoute [''@nuxt'', ''kit'', ''v'', ''1.0.0'']))
        (version (parsedRoute [''@nuxt'', ''kit'', ''v'', ''1.0.0''])))
     = [''@nuxt'', ''kit'', ''v'', ''1.0.0''] \<and>
   params_package (packageRoute (packageName (parsedRoute [''@nuxt'', ''kit''])) None)
     = [''@nuxt'', ''kit'']"
proof -
  have a: "[''@nuxt'', ''kit''] \<noteq> []" by simp
  have b: "\<forall>s\<in>set [''@nuxt'', ''kit'']. CHR ''/'' \<notin> set s" by simp
  have c: "''v'' \<notin> set [''@nuxt'', ''kit'']" by simp
  have d: "''1.0.0'' \<noteq> []" by simp
  from parse_then_packageRoute [OF a b c d] a b c d show ?thesis by simp
qed

subsection \<open>Direct dependencies\<close>

lemma count_list_filter:
  "count_list (filter P xs) d = (if P d then count_list xs d else 0)"
  by (induction xs) auto

text \<open>
  C3. For every dependencies response \<open>r\<close>: a record is in the derived list exactly when it
  is in the response's sequence and its depth is the string \<open>direct\<close>; a record with depth
  \<open>direct\<close> occurs as often in the derived list as in the response; and the derived list is
  a subsequence of the response's sequence, so the relative order is kept. Without a
  payload the list is empty.
\<close>

theorem directDependencies_filter:
  "(d \<in> set (directDependencies (Some r)) \<longleftrightarrow>
      d \<in> set (dependencies r) \<and> depth d = ''direct'') \<and>
   (depth d = ''direct'' \<longrightarrow>
      count_list (directDependencies (Some r)) d = count_list (dependencies r) d) \<and>
   subseq (directDependencies (Some r)) (dependencies r) \<and>
   directDependencies None = []"
proof (intro conjI impI)
  show "d \<in> set (directDependencies (Some r)) \<longleftrightarrow>
      d \<in> set (dependencies r) \<and> depth d = ''direct''"
    by (simp add: directDependencies_def)
  show "count_list (directDependencies (Some r)) d = count_list (dependencies r) d"
    if "depth d = ''direct''"
    using that by (simp add: directDependencies_def count_list_filter)
  show "subseq (directDependencies (Some r)) (dependencies r)"
    by (simp add: directDependencies_def)
  show "directDependencies None = []"
    by (simp add: directDependencies_def)
qed


theorem directDependencies_filter_witness:
  "depth \<lparr>dep_name = ''vue'', dep_version = ''3.5.0'', depth = ''direct'', optional = False\<rparr>
     = ''direct'' \<and>
   count_list
     (directDependencies (Some \<lparr>direct = 1,
        dependencies =
          [\<lparr>dep_name = ''csstype'', dep_version = ''3.1.3'', depth = ''transitive'', optional = False\<rparr>,
           \<lparr>dep_name = ''vue'', dep_version = ''3.5.0'', depth = ''direct'', optional = False\<rparr>],
        dev_dependencies = None\<rparr>))
     \<lparr>dep_name = ''vue'', dep_version = ''3.5.0'', depth = ''direct'', optional = False\<rparr> = 1 \<and>
   directDependencies (Some \<lparr>direct = 1,
        dependencies =
          [\<lparr>dep_name = ''csstype'', dep_version = ''3.1.3'', depth = ''transitive'', optional = False\<rparr>,
           \<lparr>dep_name = ''vue'', dep_version = ''3.5.0'', depth = ''direct'', optional = False\<rparr>],
        dev_dependencies = None\<rparr>)
     = [\<lparr>dep_name = ''vue'', dep_version = ''3.5.0'', depth = ''direct'', optional = False\<rparr>]"
  using directDependencies_filter
    [of "\<lparr>dep_name = ''vue'', dep_version = ''3.5.0'', depth = ''direct'', optional = False\<rparr>"
        "\<lparr>direct = 1,
          dependencies =
            [\<lparr>dep_name = ''csstype'', dep_version = ''3.1.3'', depth = ''transitive'', optional = False\<rparr>,
             \<lparr>dep_name = ''vue'', dep_version = ''3.5.0'', depth = ''direct'', optional = False\<rparr>],
          dev_dependencies = None\<rparr>"]
  by (simp add: directDependencies_def)

subsection \<open>Dev dependencies\<close>

lemma mset_sort_insert: "mset (sort_insert comparefn x xs) = add_mset x (mset xs)"
  by (induction xs) auto

lemma set_sort_insert: "set (sort_insert comparefn x xs) = insert x (set xs)"
  by (induction xs) auto

lemma mset_array_sort: "mset (array_sort comparefn xs) = mset xs"
  unfolding array_sort_def by (induction xs) (auto simp: mset_sort_insert)

lemma comparator_total:
  "consistent_comparator comparefn \<Longrightarrow> \<not> comparefn a b \<le> 0 \<Longrightarrow> comparefn b a \<le> 0"
  unfolding consistent_comparator_def by (metis less_le_not_le linorder_not_le)

lemma comparator_trans:
  "consistent_comparator comparefn \<Longrightarrow> comparefn a b \<le> 0 \<Longrightarrow> comparefn b c \<le> 0 \<Longrightarrow>
   comparefn a c \<le> 0"
  unfolding consistent_comparator_def by blast

lemma sorted_sort_insert:
  assumes "consistent_comparator comparefn"
    and "sorted_wrt (\<lambda>a b. comparefn a b \<le> 0) xs"
  shows "sorted_wrt (\<lambda>a b. comparefn a b \<le> 0) (sort_insert comparefn x xs)"
  using assms(2)
proof (induction xs)
  case Nil
  then show ?case by simp
next
  case (Cons y ys)
  show ?case
  proof (cases "comparefn x y \<le> 0")
    case True
    have "comparefn x z \<le> 0" if "z \<in> set ys" for z
      using Cons.prems that True comparator_trans [OF assms(1), of x y z] by auto
    with True Cons.prems show ?thesis by auto
  next
    case False
    then have "comparefn y x \<le> 0" by (rule comparator_total [OF assms(1)])
    with False Cons show ?thesis by (auto simp: set_sort_insert)
  qed
qed

lemma sorted_array_sort:
  "consistent_comparator comparefn \<Longrightarrow>
   sorted_wrt (\<lambda>a b. comparefn a b \<le> 0) (array_sort comparefn xs)"
  unfolding array_sort_def by (induction xs) (auto intro: sorted_sort_insert)

lemma consistent_by_name:
  "consistent_comparator localeCompare \<Longrightarrow>
   consistent_comparator (\<lambda>p q. localeCompare (fst p) (fst q))"
  unfolding consistent_comparator_def by blast

lemma consistent_compare_code_units: "consistent_comparator compare_code_units"
  unfolding consistent_comparator_def compare_code_units_def by auto

text \<open>
  C4. \<open>localeCompare\<close> is any consistent comparator. For every response whose dev-dependency
  mapping has the entries \<open>entries\<close>, the derived list is a rearrangement of exactly these
  (name, version) pairs, and it is in ascending order of the names under \<open>localeCompare\<close>:
  an earlier pair never compares greater than a later one. With \<open>a\<close> before \<open>b\<close> under the
  comparison, the mapping \<open>{ b: "1.0.0", a: "2.0.0" }\<close> gives
  \<open>[["a","2.0.0"], ["b","1.0.0"]]\<close>.
\<close>

theorem devDependencies_sorted:
  assumes "consistent_comparator localeCompare"
  shows "(dev_dependencies r = Some entries \<longrightarrow>
            sorted_wrt (\<lambda>p q. localeCompare (fst p) (fst q) \<le> 0)
              (devDependencies localeCompare (Some r)) \<and>
            mset (devDependencies localeCompare (Some r)) = mset entries) \<and>
         (localeCompare ''a'' ''b'' < 0 \<longrightarrow>
            devDependencies localeCompare
              (Some \<lparr>direct = n, dependencies = ds,
                     dev_dependencies = Some [(''b'', ''1.0.0''), (''a'', ''2.0.0'')]\<rparr>)
            = [(''a'', ''2.0.0''), (''b'', ''1.0.0'')])"
proof (intro conjI impI)
  assume "dev_dependencies r = Some entries"
  then have eq: "devDependencies localeCompare (Some r) =
      array_sort (\<lambda>p q. localeCompare (fst p) (fst q)) entries"
    by (simp add: devDependencies_def)
  show "sorted_wrt (\<lambda>p q. localeCompare (fst p) (fst q) \<le> 0)
          (devDependencies localeCompare (Some r))"
    unfolding eq using consistent_by_name [OF assms] by (rule sorted_array_sort)
  show "mset (devDependencies localeCompare (Some r)) = mset entries"
    unfolding eq by (rule mset_array_sort)
next
  assume "localeCompare ''a'' ''b'' < 0"
  then have "0 < localeCompare ''b'' ''a''"
    using assms unfolding consistent_comparator_def by blast
  then show "devDependencies localeCompare
              (Some \<lparr>direct = n, dependencies = ds,
                     dev_dependencies = Some [(''b'', ''1.0.0''), (''a'', ''2.0.0'')]\<rparr>)
            = [(''a'', ''2.0.0''), (''b'', ''1.0.0'')]"
    by (simp add: devDependencies_def array_sort_def)
qed

theorem devDependencies_sorted_witness:
  "consistent_comparator compare_code_units \<and>
   dev_dependencies \<lparr>direct = 0, dependencies = [],
      dev_dependencies = Some [(''vitest'', ''2.0.0''), (''eslint'', ''9.0.0'')]\<rparr>
     = Some [(''vitest'', ''2.0.0''), (''eslint'', ''9.0.0'')] \<and>
   devDependencies compare_code_units
     (Some \<lparr>direct = 0, dependencies = [],
        dev_dependencies = Some [(''vitest'', ''2.0.0''), (''eslint'', ''9.0.0'')]\<rparr>)
     = [(''eslint'', ''9.0.0''), (''vitest'', ''2.0.0'')] \<and>
   mset (devDependencies compare_code_units
     (Some \<lparr>direct = 0, dependencies = [],
        dev_dependencies = Some [(''vitest'', ''2.0.0''), (''eslint'', ''9.0.0'')]\<rparr>))
     = mset [(''vitest'', ''2.0.0''), (''eslint'', ''9.0.0'')] \<and>
   compare_code_units ''a'' ''b'' < 0 \<and>
   devDependencies compare_code_units
     (Some \<lparr>direct = 0, dependencies = [],
        dev_dependencies = Some [(''b'', ''1.0.0''), (''a'', ''2.0.0'')]\<rparr>)
     = [(''a'', ''2.0.0''), (''b'', ''1.0.0'')]"
proof -
  have ab: "compare_code_units ''a'' ''b'' < 0"
    by (simp add: compare_code_units_def less_char_def)
  have ev: "\<not> ''vitest'' < ''eslint''" "''vitest'' \<noteq> ''eslint''"
    by (simp_all add: less_char_def)
  have run: "devDependencies compare_code_units
     (Some \<lparr>direct = 0, dependencies = [],
        dev_dependencies = Some [(''vitest'', ''2.0.0''), (''eslint'', ''9.0.0'')]\<rparr>)
     = [(''eslint'', ''9.0.0''), (''vitest'', ''2.0.0'')]"
    using ev by (simp add: devDependencies_def array_sort_def compare_code_units_def)
  note inst = devDependencies_sorted [OF consistent_compare_code_units,
      of "\<lparr>direct = 0, dependencies = [],
        dev_dependencies = Some [(''vitest'', ''2.0.0''), (''eslint'', ''9.0.0'')]\<rparr>"
         "[(''vitest'', ''2.0.0''), (''eslint'', ''9.0.0'')]" 0 "[]"]
  from inst ab run consistent_compare_code_units show ?thesis by simp
qed

subsection \<open>The fetch option\<close>

lemma dependenciesFetch_not_immediate:
  "version (parsedRoute segments) = None \<Longrightarrow>
   \<not> immediate (dependenciesFetch (parsedRoute segments))"
  by (simp add: dependenciesFetch_def truthy_def)

lemma dependenciesFetch_immediate_iff:
  "immediate (dependenciesFetch r) \<longleftrightarrow> (\<exists>s. version r = Some s \<and> s \<noteq> [])"
  by (cases "version r") (simp_all add: dependenciesFetch_def truthy_def truthy_str_def)

subsection \<open>Title, description and canonical link\<close>

lemma truthy_iff: "truthy ver \<longleftrightarrow> (\<exists>s. ver = Some s \<and> s \<noteq> [])"
  by (cases ver) (simp_all add: truthy_def truthy_str_def)

lemma falsy_iff: "\<not> truthy ver \<longleftrightarrow> ver = None \<or> ver = Some []"
  by (cases ver) (simp_all add: truthy_def truthy_str_def)

lemma versioned_title_not_generic:
  "''Dependencies - '' @ pkg @ ''@'' @ s @ '' - npmx'' \<noteq> ''Dependencies - npmx''"
proof
  assume "''Dependencies - '' @ pkg @ ''@'' @ s @ '' - npmx'' = ''Dependencies - npmx''"
  then have "length (''Dependencies - '' @ pkg @ ''@'' @ s @ '' - npmx'') =
             length ''Dependencies - npmx''"
    by (rule arg_cong)
  then show False by simp
qed

lemma versioned_description_not_generic:
  "''Browse dependency tree for '' @ pkg @ ''@'' @ s \<noteq> ''Browse package dependencies''"
  by simp

lemma versioned_url_not_generic:
  "''https://npmx.dev/dependencies/'' @ pkg @ ''/v/'' @ s \<noteq> ''https://npmx.dev/dependencies''"
  by simp

lemma seo_versioned:
  "pkg \<noteq> [] \<Longrightarrow> s \<noteq> [] \<Longrightarrow>
   pageTitle pkg (Some s) = ''Dependencies - '' @ pkg @ ''@'' @ s @ '' - npmx'' \<and>
   pageDescription pkg (Some s) = ''Browse dependency tree for '' @ pkg @ ''@'' @ s \<and>
   canonicalUrl pkg (Some s) = ''https://npmx.dev/dependencies/'' @ pkg @ ''/v/'' @ s"
  by (simp add: pageTitle_def pageDescription_def canonicalUrl_def truthy_def truthy_str_def
      interpolate_def)

lemma seo_generic:
  "pkg = [] \<or> ver = None \<or> ver = Some [] \<Longrightarrow>
   pageTitle pkg ver = ''Dependencies - npmx'' \<and>
   pageDescription pkg ver = ''Browse package dependencies'' \<and>
   canonicalUrl pkg ver = ''https://npmx.dev/dependencies''"
  by (auto simp: pageTitle_def pageDescription_def canonicalUrl_def truthy_def truthy_str_def)

lemma seo_generic_only:
  assumes "pkg \<noteq> []" and "ver = Some s" and "s \<noteq> []"
  shows "pageTitle pkg ver \<noteq> ''Dependencies - npmx''"
    and "pageDescription pkg ver \<noteq> ''Browse package dependencies''"
    and "canonicalUrl pkg ver \<noteq> ''https://npmx.dev/dependencies''"
  using assms seo_versioned [of pkg s] versioned_title_not_generic [of pkg s]
    versioned_description_not_generic [of pkg s] versioned_url_not_generic [of pkg s]
  by simp_all

text \<open>
  C8, as amended. Title, description and canonical link are functions of the package name
  and the version alone. Each is its generic copy (\<open>Dependencies - npmx\<close>,
  \<open>Browse package dependencies\<close>, \<open>https://npmx.dev/dependencies\<close>) exactly when the package
  name is empty or the version is absent (\<open>null\<close> or the empty string). Otherwise, with package
  name \<open>pkg\<close> and version \<open>s\<close>, they are \<open>Dependencies - pkg@s - npmx\<close>,
  \<open>Browse dependency tree for pkg@s\<close> and \<open>https://npmx.dev/dependencies/pkg/v/s\<close>.
\<close>

theorem seo_strings:
  "(pageTitle pkg ver = ''Dependencies - npmx'' \<longleftrightarrow> pkg = [] \<or> ver = None \<or> ver = Some []) \<and>
   (pageDescription pkg ver = ''Browse package dependencies'' \<longleftrightarrow>
      pkg = [] \<or> ver = None \<or> ver = Some []) \<and>
   (canonicalUrl pkg ver = ''https://npmx.dev/dependencies'' \<longleftrightarrow>
      pkg = [] \<or> ver = None \<or> ver = Some []) \<and>
   (pkg \<noteq> [] \<longrightarrow> s \<noteq> [] \<longrightarrow>
      pageTitle pkg (Some s) = ''Dependencies - '' @ pkg @ ''@'' @ s @ '' - npmx'' \<and>
      pageDescription pkg (Some s) = ''Browse dependency tree for '' @ pkg @ ''@'' @ s \<and>
      canonicalUrl pkg (Some s) = ''https://npmx.dev/dependencies/'' @ pkg @ ''/v/'' @ s)"
proof -
  have generic: "pageTitle pkg ver = ''Dependencies - npmx'' \<and>
      pageDescription pkg ver = ''Browse package dependencies'' \<and>
      canonicalUrl pkg ver = ''https://npmx.dev/dependencies''"
    if "pkg = [] \<or> ver = None \<or> ver = Some []"
    using that by (rule seo_generic)
  have other: "pageTitle pkg ver \<noteq> ''Dependencies - npmx'' \<and>
      pageDescription pkg ver \<noteq> ''Browse package dependencies'' \<and>
      canonicalUrl pkg ver \<noteq> ''https://npmx.dev/dependencies''"
    if "\<not> (pkg = [] \<or> ver = None \<or> ver = Some [])"
  proof -
    from that obtain t where "pkg \<noteq> []" "ver = Some t" "t \<noteq> []" by (cases ver) auto
    then show ?thesis using seo_generic_only [of pkg ver t] by simp
  qed
  have versioned: "pageTitle pkg (Some s) = ''Dependencies - '' @ pkg @ ''@'' @ s @ '' - npmx'' \<and>
      pageDescription pkg (Some s) = ''Browse dependency tree for '' @ pkg @ ''@'' @ s \<and>
      canonicalUrl pkg (Some s) = ''https://npmx.dev/dependencies/'' @ pkg @ ''/v/'' @ s"
    if "pkg \<noteq> []" "s \<noteq> []"
    using that by (rule seo_versioned)
  from generic other versioned show ?thesis by blast
qed

theorem seo_strings_witness:
  "''nuxt'' \<noteq> [] \<and> ''4.2.0'' \<noteq> [] \<and>
   pageTitle ''nuxt'' (Some ''4.2.0'') = ''Dependencies - nuxt@4.2.0 - npmx'' \<and>
   pageDescription ''nuxt'' (Some ''4.2.0'') = ''Browse dependency tree for nuxt@4.2.0'' \<and>
   canonicalUrl ''nuxt'' (Some ''4.2.0'') = ''https://npmx.dev/dependencies/nuxt/v/4.2.0'' \<and>
   pageTitle ''nuxt'' None = ''Dependencies - npmx''"
  using seo_strings [of "''nuxt''" "None" "''4.2.0''"]
  by simp

text \<open>
  The claim C8 as first stated, that the generic copy stands exactly when the version is
  absent, fails for the segments \<open>["v", "1.0.0"]\<close>: the parsed version is \<open>1.0.0\<close>, the parsed
  package name is empty, and all three strings are the generic ones.
\<close>

theorem seo_empty_name_counterexample:
  "version (parsedRoute [''v'', ''1.0.0'']) = Some ''1.0.0'' \<and>
   packageName (parsedRoute [''v'', ''1.0.0'']) = [] \<and>
   pageTitle (packageName (parsedRoute [''v'', ''1.0.0'']))
     (version (parsedRoute [''v'', ''1.0.0''])) = ''Dependencies - npmx'' \<and>
   pageDescription (packageName (parsedRoute [''v'', ''1.0.0'']))
     (version (parsedRoute [''v'', ''1.0.0''])) = ''Browse package dependencies'' \<and>
   canonicalUrl (packageName (parsedRoute [''v'', ''1.0.0'']))
     (version (parsedRoute [''v'', ''1.0.0''])) = ''https://npmx.dev/dependencies''"
proof -
  have "parsedRoute ([] @ ''v'' # ''1.0.0'' # []) =
        \<lparr>packageName = join [] ''/'', version = Some ''1.0.0''\<rparr>"
    by (rule parsedRoute_v_inner) simp
  then have "parsedRoute [''v'', ''1.0.0''] = \<lparr>packageName = [], version = Some ''1.0.0''\<rparr>"
    by simp
  then show ?thesis
    by (simp add: pageTitle_def pageDescription_def canonicalUrl_def truthy_str_def)
qed

subsection \<open>The state the template renders\<close>

lemma renderedState_unfold:
  "renderedState ver st deps =
     (if \<not> truthy ver then Some NoVersion
      else if st = ''pending'' then Some Loading
      else if st = ''error'' then Some FetchError
      else if deps \<noteq> None then Some Content
      else None)"
  by (simp add: renderedState_def)

text \<open>
  C2, as amended. For every version, fetch status and payload at most one of the four
  states renders, the first in the order of the chain whose condition holds: no-version
  when the version is \<open>null\<close> or the empty string; else loading when the status is
  \<open>pending\<close>; else error when the status is \<open>error\<close>; else content when a payload is present;
  and nothing when the version is non-empty, the status is neither \<open>pending\<close> nor \<open>error\<close>
  and there is no payload. Whenever the version is \<open>null\<close> the no-version state renders,
  whatever the status and the payload.
\<close>

theorem renderedState_priority:
  "(renderedState ver st deps = Some NoVersion \<longleftrightarrow> ver = None \<or> ver = Some []) \<and>
   (renderedState ver st deps = Some Loading \<longleftrightarrow> truthy ver \<and> st = ''pending'') \<and>
   (renderedState ver st deps = Some FetchError \<longleftrightarrow> truthy ver \<and> st = ''error'') \<and>
   (renderedState ver st deps = Some Content \<longleftrightarrow>
      truthy ver \<and> st \<noteq> ''pending'' \<and> st \<noteq> ''error'' \<and> deps \<noteq> None) \<and>
   (renderedState ver st deps = None \<longleftrightarrow>
      truthy ver \<and> st \<noteq> ''pending'' \<and> st \<noteq> ''error'' \<and> deps = None) \<and>
   (ver = None \<longrightarrow> renderedState ver st deps = Some NoVersion)"
  unfolding renderedState_unfold falsy_iff [symmetric]
  by (auto simp: truthy_def)

theorem renderedState_priority_witness:
  "renderedState None ''error'' (None :: PackageDependenciesResponse option) = Some NoVersion \<and>
   renderedState None ''pending'' (None :: PackageDependenciesResponse option) = Some NoVersion \<and>
   renderedState (Some ''4.2.0'') ''pending'' (None :: PackageDependenciesResponse option)
     = Some Loading"
  using renderedState_priority [of None "''error''" "None :: PackageDependenciesResponse option"]
    renderedState_priority [of None "''pending''" "None :: PackageDependenciesResponse option"]
    renderedState_priority [of "Some ''4.2.0''" "''pending''"
      "None :: PackageDependenciesResponse option"]
  by (simp add: truthy_def truthy_str_def)

text \<open>
  The claim C2 as first stated fails at two inputs. With version \<open>4.2.0\<close>, status \<open>success\<close>
  and no payload none of the four states renders, so it is not exactly one. With the empty
  string as version (which is not \<open>null\<close>) and status \<open>pending\<close>, the no-version state renders,
  not the loading state.
\<close>

theorem renderedState_counterexample:
  "renderedState (Some ''4.2.0'') ''success'' (None :: PackageDependenciesResponse option) = None \<and>
   renderedState (Some []) ''pending'' (None :: PackageDependenciesResponse option)
     = Some NoVersion"
  by (simp add: renderedState_def truthy_def truthy_str_def)

end
